theory Spec2Isabelle
  imports Complex_Main "HOL-Library.List_Lexorder" "HOL-Library.Char_ord"
begin

section \<open>Python string operations used by \<^verbatim>\<open>mp_remote.py\<close>\<close>

text \<open>
  Python strings are modelled as \<^typ>\<open>string\<close>. Isabelle characters are 8-bit, so the
  model covers the code points below 256; on these, the definitions below follow
  CPython's \<^verbatim>\<open>str.isspace\<close>, \<^verbatim>\<open>str.strip\<close>, \<^verbatim>\<open>str.rstrip(chars)\<close>,
  \<^verbatim>\<open>str.splitlines\<close>, \<^verbatim>\<open>str.split()\<close>, \<^verbatim>\<open>str.endswith\<close>, \<^verbatim>\<open>str.rfind\<close> and
  \<^verbatim>\<open>str.join\<close>.
\<close>

definition whitespace :: "char list" where
  "whitespace = [CHR 0x09, CHR 0x0A, CHR 0x0B, CHR 0x0C, CHR 0x0D,
                 CHR 0x1C, CHR 0x1D, CHR 0x1E, CHR 0x1F, CHR 0x20, CHR 0x85, CHR 0xA0]"

definition isspace :: "char \<Rightarrow> bool" where
  "isspace c = (c \<in> set whitespace)"

definition linebreaks :: "char list" where
  "linebreaks = [CHR 0x0A, CHR 0x0B, CHR 0x0C, CHR 0x0D,
                 CHR 0x1C, CHR 0x1D, CHR 0x1E, CHR 0x85]"

definition is_linebreak :: "char \<Rightarrow> bool" where
  "is_linebreak c = (c \<in> set linebreaks)"

definition lstrip :: "string \<Rightarrow> string" where
  "lstrip s = dropWhile isspace s"

definition rstrip :: "string \<Rightarrow> string" where
  "rstrip s = rev (dropWhile isspace (rev s))"

definition strip :: "string \<Rightarrow> string" where
  "strip s = rstrip (lstrip s)"

definition rstrip_chars :: "string \<Rightarrow> string \<Rightarrow> string" where
  \<comment> \<open>\<^verbatim>\<open>s.rstrip(chars)\<close>\<close>
  "rstrip_chars chars s = rev (dropWhile (\<lambda>c. c \<in> set chars) (rev s))"

definition endswith :: "string \<Rightarrow> string \<Rightarrow> bool" where
  \<comment> \<open>\<^verbatim>\<open>s.endswith(t)\<close>\<close>
  "endswith s t = (length t \<le> length s \<and> drop (length s - length t) s = t)"

fun splitlines_from :: "string \<Rightarrow> string \<Rightarrow> string list" where
  \<comment> \<open>the first argument is the line read so far; CR LF counts as one break\<close>
  "splitlines_from cur [] = (if cur = [] then [] else [cur])"
| "splitlines_from cur [c] = (if is_linebreak c then [cur] else [cur @ [c]])"
| "splitlines_from cur (c # d # cs) =
     (if c = CHR 0x0D \<and> d = CHR 0x0A then cur # splitlines_from [] cs
      else if is_linebreak c then cur # splitlines_from [] (d # cs)
      else splitlines_from (cur @ [c]) (d # cs))"

definition splitlines :: "string \<Rightarrow> string list" where
  "splitlines s = splitlines_from [] s"

fun split_from :: "string \<Rightarrow> string \<Rightarrow> string list" where
  \<comment> \<open>\<^verbatim>\<open>s.split()\<close>: maximal runs of non-whitespace; the first argument is the token read so far\<close>
  "split_from cur [] = (if cur = [] then [] else [cur])"
| "split_from cur (c # cs) =
     (if isspace c then (if cur = [] then split_from [] cs else cur # split_from [] cs)
      else split_from (cur @ [c]) cs)"

definition split :: "string \<Rightarrow> string list" where
  "split s = split_from [] s"

fun join :: "string \<Rightarrow> string list \<Rightarrow> string" where
  \<comment> \<open>\<^verbatim>\<open>sep.join(xs)\<close>\<close>
  "join sep [] = []"
| "join sep [x] = x"
| "join sep (x # y # ys) = x @ sep @ join sep (y # ys)"

fun rfind :: "char \<Rightarrow> string \<Rightarrow> int" where
  \<comment> \<open>\<^verbatim>\<open>s.rfind(c)\<close>: index of the last occurrence, \<open>-1\<close> when there is none\<close>
  "rfind c [] = - 1"
| "rfind c (x # xs) =
     (let r = rfind c xs in if 0 \<le> r then r + 1 else if x = c then 0 else - 1)"


section \<open>Relative paths (\<^verbatim>\<open>pathlib\<close>)\<close>

text \<open>
  A path relative to the scan root is the list of its components. The operations are
  those of \<^verbatim>\<open>PurePosixPath\<close>: \<^verbatim>\<open>name\<close>, \<^verbatim>\<open>suffix\<close> (as in CPython up to 3.13: the text
  from the last dot of the name, when that dot is neither the first nor the last
  character), \<^verbatim>\<open>parent\<close> and \<^verbatim>\<open>as_posix\<close> (the empty relative path is written \<^verbatim>\<open>.\<close>).
\<close>

type_synonym path = "string list"

definition path_name :: "path \<Rightarrow> string" where
  "path_name p = (if p = [] then [] else last p)"

definition suffix_of :: "string \<Rightarrow> string" where
  "suffix_of name =
     (let i = rfind CHR ''.'' name
      in if 0 < i \<and> i < int (length name) - 1 then drop (nat i) name else [])"

definition suffix :: "path \<Rightarrow> string" where
  "suffix p = suffix_of (path_name p)"

definition parent :: "path \<Rightarrow> path" where
  "parent p = butlast p"

definition as_posix :: "path \<Rightarrow> string" where
  "as_posix p = (if p = [] then ''.'' else join ''/'' p)"

definition str_under :: "string \<Rightarrow> path \<Rightarrow> string" where
  \<comment> \<open>\<^verbatim>\<open>str(file)\<close> for a file below the resolved root, whose own \<^verbatim>\<open>str\<close> is the first argument\<close>
  "str_under root_str p = (if root_str = ''/'' then ''/'' else root_str @ ''/'') @ join ''/'' p"


section \<open>Constants of the script\<close>

definition TIMESTAMP_FILE_NAME :: string where
  "TIMESTAMP_FILE_NAME = ''last_upload_time.txt''"

definition ESP_ROOT :: string where
  "ESP_ROOT = '':/''"

definition IGNORED_SUFFIXES :: "string list" where
  "IGNORED_SUFFIXES =
     [''.txt'', ''.md'', ''.pyc'', ''.log'', ''.bak'', ''.bat'', ''.sh'',
      ''.ini'', ''.cfg'', ''.config'', ''.DS_Store'',
      ''.git'', ''.gitignore'', ''.gitattributes'',
      ''.pdf'', ''.docx'', ''.xlsx'', ''.pptx'',
      ''.zip'', ''.tar'', ''.tar.gz'', ''.rar'']"


section \<open>The local directory tree\<close>

text \<open>
  A regular file carries its modification time and what \<^verbatim>\<open>float(read_text())\<close> makes
  of its text: \<open>FloatText t\<close> is a text that parses to the finite float \<open>t\<close>, any other
  text is \<open>OtherText\<close>. Times are the real values of the floats the script compares
  (\<^verbatim>\<open>str\<close> and \<^verbatim>\<open>float\<close> are inverse on finite floats); a directory lists its entries in
  the order in which the operating system returns them.
\<close>

datatype content = FloatText real | OtherText

datatype node = File (mtime: real) (body: content) | Dir "(string \<times> node) list"

type_synonym entries = "(string \<times> node) list"

fun rglob :: "path \<Rightarrow> entries \<Rightarrow> (path \<times> node) list"
  and rglob_subdirs :: "path \<Rightarrow> entries \<Rightarrow> (path \<times> node) list"
where
  \<comment> \<open>\<^verbatim>\<open>path.rglob('*')\<close>: every entry below the directory, each with its relative path;
      the entries of a directory first, then the contents of its subdirectories in turn\<close>
  "rglob pre es = map (\<lambda>e. (pre @ [fst e], snd e)) es @ rglob_subdirs pre es"
| "rglob_subdirs pre [] = []"
| "rglob_subdirs pre ((n, File m t) # es) = rglob_subdirs pre es"
| "rglob_subdirs pre ((n, Dir sub) # es) = rglob (pre @ [n]) sub @ rglob_subdirs pre es"

fun nodes_at :: "entries \<Rightarrow> path \<Rightarrow> node list" where
  \<comment> \<open>what a relative path names below a directory, at any depth (one node at most when
      the names of a directory are distinct)\<close>
  "nodes_at es [] = []"
| "nodes_at es [n] = map snd (filter (\<lambda>e. fst e = n) es)"
| "nodes_at es (n # m # p) =
     concat (map (\<lambda>e. case snd e of Dir sub \<Rightarrow> if fst e = n then nodes_at sub (m # p) else []
                                     | File t b \<Rightarrow> []) es)"

fun is_dir :: "node option \<Rightarrow> bool" where
  "is_dir (Some (Dir es)) = True"
| "is_dir (Some (File m t)) = False"
| "is_dir None = False"


section \<open>Effects and outcomes\<close>

text \<open>
  What a run does is recorded as a trace: lines printed, \<^verbatim>\<open>mpremote\<close> command lines run,
  reads and writes of the marker file. The device tool is an oracle from a command line
  to its outcome: it completes with some standard output, or \<^verbatim>\<open>subprocess.run\<close> raises
  \<^verbatim>\<open>CalledProcessError\<close>, whose \<^verbatim>\<open>str\<close> the outcome carries.
\<close>

datatype event =
    Print string
  | Run "string list"
  | ReadMarker
  | WriteMarker real

datatype outcome = Completed string | CalledProcessError string

type_synonym device = "string list \<Rightarrow> outcome"

datatype exn = SystemExit int | ValueError | IsADirectoryError | AttributeError

definition run_mpremote ::
  "device \<Rightarrow> string list \<Rightarrow> bool \<Rightarrow> bool \<Rightarrow> (exn + string option) \<times> event list" where
  "run_mpremote dev args_list capture_output exit_on_error =
     (let cmd = [''mpremote''] @ args_list
      in case dev cmd of
           Completed stdout \<Rightarrow>
             (Inr (if capture_output then Some (strip stdout) else None), [Run cmd])
         | CalledProcessError e \<Rightarrow>
             if exit_on_error
             then (Inl (SystemExit 1), [Run cmd, Print (''Error: mpremote command failed: '' @ e)])
             else (Inr None, [Run cmd]))"


section \<open>The upload operation\<close>

definition get_last_upload_time :: "entries \<Rightarrow> (exn + real) \<times> event list" where
  "get_last_upload_time es =
     (case map_of es TIMESTAMP_FILE_NAME of
        None \<Rightarrow> (Inr 0, [])
      | Some (Dir sub) \<Rightarrow> (Inl IsADirectoryError, [])
      | Some (File m OtherText) \<Rightarrow> (Inl ValueError, [ReadMarker])
      | Some (File m (FloatText t)) \<Rightarrow> (Inr t, [ReadMarker]))"

fun write_entry :: "string \<Rightarrow> node \<Rightarrow> entries \<Rightarrow> entries" where
  \<comment> \<open>\<^verbatim>\<open>write_text\<close>: replace the entry of that name, or add one\<close>
  "write_entry n x [] = [(n, x)]"
| "write_entry n x (e # es) = (if fst e = n then (n, x) # es else e # write_entry n x es)"

definition update_upload_time :: "real \<Rightarrow> entries \<Rightarrow> entries \<times> event list" where
  \<comment> \<open>the first argument is the value of \<^verbatim>\<open>time.time()\<close>\<close>
  "update_upload_time now es =
     (write_entry TIMESTAMP_FILE_NAME (File now (FloatText now)) es, [WriteMarker now])"

definition wanted :: "bool \<Rightarrow> real \<Rightarrow> path \<times> node \<Rightarrow> bool" where
  \<comment> \<open>the three tests of the scanning loop, in the source's order\<close>
  "wanted force last_upload_time f =
     (case snd f of
        Dir sub \<Rightarrow> False
      | File m t \<Rightarrow>
          if suffix (fst f) \<in> set IGNORED_SUFFIXES then False
          else force \<or> m > last_upload_time)"

definition files_to_upload :: "entries \<Rightarrow> bool \<Rightarrow> real \<Rightarrow> (path \<times> node) list" where
  "files_to_upload es force last_upload_time =
     filter (wanted force last_upload_time) (rglob [] es)"

fun folders_to_create :: "(path \<times> node) list \<Rightarrow> string list" where
  \<comment> \<open>the elements added to the set \<^verbatim>\<open>folders_to_create\<close>, in the order of the loop\<close>
  "folders_to_create [] = []"
| "folders_to_create (f # fs) =
     (let relative_folder = as_posix (parent (fst f))
      in if relative_folder \<noteq> [] then relative_folder # folders_to_create fs
         else folders_to_create fs)"

fun create_folders :: "device \<Rightarrow> string list \<Rightarrow> (exn + unit) \<times> event list" where
  "create_folders dev [] = (Inr (), [])"
| "create_folders dev (folder # rest) =
     (let esp_folder = rstrip_chars ''/'' ESP_ROOT @ ''/'' @ folder
      in case run_mpremote dev [''fs'', ''mkdir'', esp_folder] False False of
           (Inl e, evs) \<Rightarrow> (Inl e, evs)
         | (Inr r, evs) \<Rightarrow>
             (case create_folders dev rest of (res, evs') \<Rightarrow> (res, evs @ evs')))"

fun upload_files :: "device \<Rightarrow> string \<Rightarrow> (path \<times> node) list \<Rightarrow> (exn + unit) \<times> event list" where
  "upload_files dev root_str [] = (Inr (), [])"
| "upload_files dev root_str (f # fs) =
     (let relative_path = as_posix (fst f);
          esp_target = rstrip_chars ''/'' ESP_ROOT @ ''/'' @ relative_path
      in case run_mpremote dev [''fs'', ''cp'', str_under root_str (fst f), esp_target] False True of
           (Inl e, evs) \<Rightarrow> (Inl e, evs)
         | (Inr r, evs) \<Rightarrow>
             (case upload_files dev root_str fs of
                (res, evs') \<Rightarrow> (res, evs @ [Print (''Uploaded: '' @ relative_path)] @ evs')))"

definition scanning_line :: "string \<Rightarrow> event" where
  "scanning_line root_str =
     Print (''Scanning for modified files in '' @ [CHR 0x27] @ root_str @ [CHR 0x27] @ ''...''
            @ [CHR 0x0A])"

definition upload_path ::
  "device \<Rightarrow> real \<Rightarrow> string \<Rightarrow> node option \<Rightarrow> bool \<Rightarrow> (exn + unit) \<times> event list \<times> node option" where
  \<comment> \<open>\<open>now\<close> is the clock reading at the end of the run, \<open>root_str\<close> the resolved path as
      text and \<open>local\<close> what it names; the result is the outcome, the trace and the tree after\<close>
  "upload_path dev now root_str local force =
     (case local of
        Some (Dir es) \<Rightarrow>
          (case get_last_upload_time es of
             (Inl e, evs0) \<Rightarrow> (Inl e, evs0, local)
           | (Inr last_upload_time, evs0) \<Rightarrow>
               let scanning = scanning_line root_str;
                   files = files_to_upload es force last_upload_time
               in if files = []
                  then (Inr (), evs0 @ [scanning, Print ''No files were modified since the last upload.''],
                        local)
                  else
                    (case create_folders dev (sort (remdups (folders_to_create files))) of
                       (Inl e, evs1) \<Rightarrow> (Inl e, evs0 @ [scanning] @ evs1, local)
                     | (Inr u, evs1) \<Rightarrow>
                         (case upload_files dev root_str files of
                            (Inl e, evs2) \<Rightarrow> (Inl e, evs0 @ [scanning] @ evs1 @ evs2, local)
                          | (Inr u', evs2) \<Rightarrow>
                              (case update_upload_time now es of
                                 (es', evs3) \<Rightarrow>
                                   (Inr (),
                                    evs0 @ [scanning] @ evs1 @ evs2 @ evs3
                                      @ [Print ([CHR 0x0A] @ ''Upload complete.'')],
                                    Some (Dir es'))))))
      | _ \<Rightarrow> (Inl (SystemExit 1), [Print (''Error: Directory not found at '' @ root_str)], local))"


section \<open>The list-files operation\<close>

text \<open>
  The recursion of \<^verbatim>\<open>list_all_files\<close> is driven by what the device answers, so the model
  takes fuel: the first argument bounds the depth of nested calls, and \<open>None\<close> says the
  bound was reached (CPython itself gives up with \<^verbatim>\<open>RecursionError\<close> at its recursion
  limit, which the model leaves out).
\<close>

fun classify :: "string list \<Rightarrow> string list \<Rightarrow> string list \<Rightarrow> string list \<times> string list" where
  \<comment> \<open>the loop over \<^verbatim>\<open>entries\<close>; the first two arguments are \<^verbatim>\<open>files\<close> and \<^verbatim>\<open>subdirs\<close> so far\<close>
  "classify files subdirs [] = (files, subdirs)"
| "classify files subdirs (entry # entries) =
     (let parts = split (strip entry)
      in if parts = [] then classify files subdirs entries
         else let name = last parts
              in if endswith name ''/''
                 then classify files (subdirs @ [rstrip_chars ''/'' name]) entries
                 else classify (files @ [name]) subdirs entries)"

fun list_all_files :: "nat \<Rightarrow> device \<Rightarrow> string \<Rightarrow> ((exn + unit) \<times> event list) option"
  and list_subdirs :: "nat \<Rightarrow> device \<Rightarrow> string \<Rightarrow> string list \<Rightarrow> ((exn + unit) \<times> event list) option"
where
  "list_all_files 0 dev base_path = None"
| "list_all_files (Suc n) dev base_path =
     (case run_mpremote dev [''fs'', ''ls'', base_path] True True of
        (Inl (SystemExit c), evs) \<Rightarrow> Some (Inr (), evs)
      | (Inl e, evs) \<Rightarrow> Some (Inl e, evs)
      | (Inr None, evs) \<Rightarrow> Some (Inl AttributeError, evs)
      | (Inr (Some output), evs) \<Rightarrow>
          let lines = splitlines (strip output)
          in if lines = [] \<or> length lines < 2 then Some (Inr (), evs)
             else
               (case classify [] [] (drop 1 lines) of
                  (files, subdirs) \<Rightarrow>
                    let here = rstrip_chars ''/'' base_path;
                        evs1 = evs @ [Print ([CHR 0x0A] @ here @ ''/'')]
                                 @ map (\<lambda>f. Print (replicate (length here + 1) CHR '' '' @ f)) files
                    in (case list_subdirs n dev here subdirs of
                          None \<Rightarrow> None
                        | Some (res, evs2) \<Rightarrow> Some (res, evs1 @ evs2))))"
| "list_subdirs n dev here [] = Some (Inr (), [])"
| "list_subdirs n dev here (subdir # rest) =
     (case list_all_files n dev (here @ ''/'' @ subdir) of
        None \<Rightarrow> None
      | Some (Inl e, evs) \<Rightarrow> Some (Inl e, evs)
      | Some (Inr u, evs) \<Rightarrow>
          (case list_subdirs n dev here rest of
             None \<Rightarrow> None
           | Some (res, evs') \<Rightarrow> Some (res, evs @ evs')))"


section \<open>Reading a trace\<close>

definition runs :: "event list \<Rightarrow> string list list" where
  \<comment> \<open>the device command lines of a trace, in order\<close>
  "runs evs = concat (map (\<lambda>ev. case ev of Run cmd \<Rightarrow> [cmd] | _ \<Rightarrow> []) evs)"

definition prints :: "event list \<Rightarrow> string list" where
  \<comment> \<open>the printed lines of a trace, in order\<close>
  "prints evs = concat (map (\<lambda>ev. case ev of Print s \<Rightarrow> [s] | _ \<Rightarrow> []) evs)"

definition marker_writes :: "event list \<Rightarrow> real list" where
  "marker_writes evs = concat (map (\<lambda>ev. case ev of WriteMarker t \<Rightarrow> [t] | _ \<Rightarrow> []) evs)"

definition marker_reads :: "event list \<Rightarrow> nat" where
  "marker_reads evs = length (filter (\<lambda>ev. ev = ReadMarker) evs)"

definition is_copy :: "string list \<Rightarrow> bool" where
  "is_copy cmd = (take 3 cmd = [''mpremote'', ''fs'', ''cp''])"

definition is_mkdir :: "string list \<Rightarrow> bool" where
  "is_mkdir cmd = (take 3 cmd = [''mpremote'', ''fs'', ''mkdir''])"

definition cp_command :: "string \<Rightarrow> path \<Rightarrow> string list" where
  \<comment> \<open>the copy request for the file at a relative path\<close>
  "cp_command root_str p = [''mpremote'', ''fs'', ''cp'', str_under root_str p, '':/'' @ as_posix p]"

definition mkdir_command :: "string \<Rightarrow> string list" where
  "mkdir_command folder = [''mpremote'', ''fs'', ''mkdir'', '':/'' @ folder]"

definition ls_command :: "string \<Rightarrow> string list" where
  "ls_command base_path = [''mpremote'', ''fs'', ''ls'', base_path]"

definition failure_line :: "string \<Rightarrow> event" where
  \<comment> \<open>the diagnostic of the invocation routine for a failed command\<close>
  "failure_line e = Print (''Error: mpremote command failed: '' @ e)"


section \<open>The listing as the specification words it\<close>

definition entry_names :: "string list \<Rightarrow> string list" where
  \<comment> \<open>the last whitespace-delimited token of every line that has one\<close>
  "entry_names ls = map (\<lambda>l. last (split l)) (filter (\<lambda>l. split l \<noteq> []) ls)"

definition listed_files :: "string list \<Rightarrow> string list" where
  "listed_files ls = filter (\<lambda>name. \<not> endswith name ''/'') (entry_names ls)"

definition listed_subdirs :: "string list \<Rightarrow> string list" where
  "listed_subdirs ls = map (rstrip_chars ''/'') (filter (\<lambda>name. endswith name ''/'') (entry_names ls))"

definition listing_lines :: "device \<Rightarrow> string \<Rightarrow> string list" where
  \<comment> \<open>the lines of the device's answer for a path; none when the request fails\<close>
  "listing_lines dev base_path =
     (case dev (ls_command base_path) of
        Completed stdout \<Rightarrow> splitlines (strip stdout)
      | CalledProcessError e \<Rightarrow> [])"

definition header_of :: "string \<Rightarrow> event" where
  "header_of base_path = Print ([CHR 0x0A] @ rstrip_chars ''/'' base_path @ ''/'')"

definition file_lines :: "string \<Rightarrow> string list \<Rightarrow> event list" where
  "file_lines base_path files =
     map (\<lambda>f. Print (replicate (length (rstrip_chars ''/'' base_path) + 1) CHR '' '' @ f)) files"

definition reported_subdirs :: "device \<Rightarrow> string \<Rightarrow> string list" where
  \<comment> \<open>the paths of the subdirectories that the device reports below a path\<close>
  "reported_subdirs dev base_path =
     (let ls = listing_lines dev base_path
      in if length ls < 2 then []
         else map (\<lambda>subdir. rstrip_chars ''/'' base_path @ ''/'' @ subdir) (listed_subdirs (drop 1 ls)))"

fun depth_within :: "nat \<Rightarrow> device \<Rightarrow> string \<Rightarrow> bool" where
  \<comment> \<open>the tree of reported subdirectories below a path has fewer than \<open>n\<close> levels under it\<close>
  "depth_within 0 dev base_path = False"
| "depth_within (Suc n) dev base_path = list_all (depth_within n dev) (reported_subdirs dev base_path)"


section \<open>Concrete directories and devices\<close>

definition dev_ok :: device where
  \<comment> \<open>a device on which every command succeeds silently\<close>
  "dev_ok cmd = Completed []"

definition exit_status_1 :: "string list \<Rightarrow> outcome" where
  \<comment> \<open>the command ends with status 1; the text is \<^verbatim>\<open>str\<close> of the exception that
      \<^verbatim>\<open>subprocess.run\<close> raises for a command line of plain words\<close>
  "exit_status_1 cmd =
     CalledProcessError
       (''Command '' @ [CHR 0x27] @ ''['' @ join '', '' (map (\<lambda>w. [CHR 0x27] @ w @ [CHR 0x27]) cmd)
        @ '']'' @ [CHR 0x27] @ '' returned non-zero exit status 1.'')"

definition dev_down :: device where
  \<comment> \<open>a device on which every command fails\<close>
  "dev_down cmd = exit_status_1 cmd"

definition two_level :: device where
  \<comment> \<open>one file and one subdirectory at the root, one file in the subdirectory\<close>
  "two_level cmd =
     (if cmd = ls_command '':/''
      then Completed (''ls :/'' @ [CHR 0x0A] @ ''         139 main.py'' @ [CHR 0x0A]
                      @ ''           0 lib/'' @ [CHR 0x0A])
      else if cmd = ls_command '':/lib''
      then Completed (''ls :/lib'' @ [CHR 0x0A] @ ''          77 util.py'' @ [CHR 0x0A])
      else exit_status_1 cmd)"

definition empty_root :: device where
  \<comment> \<open>a device whose root directory is empty: the answer is the header line alone\<close>
  "empty_root cmd =
     (if cmd = ls_command '':/'' then Completed (''ls :/'' @ [CHR 0x0A]) else exit_status_1 cmd)"

definition self_listing :: device where
  \<comment> \<open>a device that reports, for every path, one subdirectory named by the separator alone\<close>
  "self_listing cmd = Completed (''ls'' @ [CHR 0x0A] @ ''           0 /'' @ [CHR 0x0A])"

definition project :: entries where
  \<comment> \<open>the directory of the specification's example, with a marker from an earlier upload\<close>
  "project =
     [(''a.py'', File 10 OtherText),
      (''old.md'', File 11 OtherText),
      (''sub'', Dir [(''b.py'', File 12 OtherText)]),
      (''last_upload_time.txt'', File 5 (FloatText 5))]"

definition archive_dir :: entries where
  \<comment> \<open>no marker yet; two files that the denylist names\<close>
  "archive_dir = [(''backup.tar.gz'', File 10 OtherText), (''.gitignore'', File 10 OtherText)]"

definition stale_dir :: entries where
  \<comment> \<open>nothing newer than the marker\<close>
  "stale_dir = [(''a.py'', File 3 OtherText), (''last_upload_time.txt'', File 5 (FloatText 5))]"


section \<open>Scanning the local tree\<close>

lemma set_nodes_at_single: "set (nodes_at es [n]) = {x. (n, x) \<in> set es}"
  by force

lemma nodes_at_deeper_Cons:
  "nodes_at ((k, y) # es) (n # m # r) =
     (case y of Dir sub \<Rightarrow> if k = n then nodes_at sub (m # r) else [] | File t b \<Rightarrow> [])
     @ nodes_at es (n # m # r)"
  by (cases y) simp_all

lemma rglob_sound_complete:
  "(\<forall>p x. (p, x) \<in> set (rglob pre es) \<longleftrightarrow> (\<exists>q. p = pre @ q \<and> x \<in> set (nodes_at es q)))"
  "(\<forall>p x. (p, x) \<in> set (rglob_subdirs pre es) \<longleftrightarrow>
            (\<exists>n m r. p = pre @ n # m # r \<and> x \<in> set (nodes_at es (n # m # r))))"
proof (induction pre es and pre es rule: rglob_rglob_subdirs.induct)
  case (1 pre es)
  show ?case
  proof (intro allI iffI)
    fix p x assume "(p, x) \<in> set (rglob pre es)"
    then consider n where "p = pre @ [n]" "(n, x) \<in> set es"
      | "(p, x) \<in> set (rglob_subdirs pre es)"
      by auto
    then show "\<exists>q. p = pre @ q \<and> x \<in> set (nodes_at es q)"
    proof cases
      case 1
      then have "x \<in> set (nodes_at es [n])" unfolding set_nodes_at_single by simp
      with 1 show ?thesis by blast
    next
      case 2
      with "1.IH" show ?thesis by blast
    qed
  next
    fix p x assume "\<exists>q. p = pre @ q \<and> x \<in> set (nodes_at es q)"
    then obtain q where q: "p = pre @ q" "x \<in> set (nodes_at es q)" by blast
    show "(p, x) \<in> set (rglob pre es)"
    proof (cases q)
      case Nil
      with q show ?thesis by simp
    next
      case (Cons n r)
      note qn = Cons
      show ?thesis
      proof (cases r)
        case Nil
        with qn q have "x \<in> set (nodes_at es [n])" by simp
        then have "(n, x) \<in> set es" unfolding set_nodes_at_single by simp
        then have "(pre @ [n], x) \<in> set (map (\<lambda>e. (pre @ [fst e], snd e)) es)" by force
        then show ?thesis using q qn Nil by simp
      next
        case (Cons m r')
        with qn q "1.IH" have "(p, x) \<in> set (rglob_subdirs pre es)" by blast
        then show ?thesis by simp
      qed
    qed
  qed
next
  case (2 pre)
  show ?case by simp
next
  case (3 pre n m t es)
  have "nodes_at ((n, File m t) # es) (k # j # r) = nodes_at es (k # j # r)" for k j r
    by simp
  with 3 show ?case by (simp del: nodes_at.simps)
next
  case (4 pre n sub es)
  show ?case
  proof (intro allI iffI)
    fix p x assume "(p, x) \<in> set (rglob_subdirs pre ((n, Dir sub) # es))"
    then consider "(p, x) \<in> set (rglob (pre @ [n]) sub)" | "(p, x) \<in> set (rglob_subdirs pre es)"
      by (simp only: rglob_subdirs.simps set_append Un_iff) blast
    then show "\<exists>k m r. p = pre @ k # m # r \<and> x \<in> set (nodes_at ((n, Dir sub) # es) (k # m # r))"
    proof cases
      case 1
      then obtain q where q: "p = (pre @ [n]) @ q" "x \<in> set (nodes_at sub q)"
        using "4.IH"(1) by blast
      then obtain m r where mr: "q = m # r" by (cases q) auto
      have "x \<in> set (nodes_at ((n, Dir sub) # es) (n # m # r))"
        using q mr by (simp only: nodes_at_deeper_Cons) simp
      moreover have "p = pre @ n # m # r" using q mr by simp
      ultimately show ?thesis by blast
    next
      case 2
      then obtain k m r where "p = pre @ k # m # r" "x \<in> set (nodes_at es (k # m # r))"
        using "4.IH"(2) by blast
      then have "p = pre @ k # m # r \<and> x \<in> set (nodes_at ((n, Dir sub) # es) (k # m # r))"
        by (simp only: nodes_at_deeper_Cons) simp
      then show ?thesis by blast
    qed
  next
    fix p x
    assume "\<exists>k m r. p = pre @ k # m # r \<and> x \<in> set (nodes_at ((n, Dir sub) # es) (k # m # r))"
    then obtain k m r where kmr: "p = pre @ k # m # r"
      "x \<in> set (nodes_at ((n, Dir sub) # es) (k # m # r))" by blast
    from kmr(2) consider "k = n" "x \<in> set (nodes_at sub (m # r))" | "x \<in> set (nodes_at es (k # m # r))"
      by (simp only: nodes_at_deeper_Cons) (auto split: if_splits)
    then show "(p, x) \<in> set (rglob_subdirs pre ((n, Dir sub) # es))"
    proof cases
      case 1
      with kmr have "p = (pre @ [n]) @ (m # r)" by simp
      with 1 have "(p, x) \<in> set (rglob (pre @ [n]) sub)" using "4.IH"(1) by blast
      then show ?thesis by (simp only: rglob_subdirs.simps set_append Un_iff) simp
    next
      case 2
      with kmr have "(p, x) \<in> set (rglob_subdirs pre es)" using "4.IH"(2) by blast
      then show ?thesis by (simp only: rglob_subdirs.simps set_append Un_iff) simp
    qed
  qed
qed

lemma rglob_root_iff: "(p, x) \<in> set (rglob [] es) \<longleftrightarrow> x \<in> set (nodes_at es p)"
  using rglob_sound_complete(1)[of "[]" es] by simp


section \<open>Traces of the upload operation\<close>

lemma esp_colon: "rstrip_chars ''/'' ESP_ROOT = '':''"
  by (simp add: rstrip_chars_def ESP_ROOT_def)

lemma run_mpremote_quiet:
  "run_mpremote dev args False False = (Inr None, [Run (''mpremote'' # args)])"
  by (simp add: run_mpremote_def Let_def split: outcome.splits)

lemma run_mpremote_strict:
  "run_mpremote dev args False True =
     (case dev (''mpremote'' # args) of
        Completed out \<Rightarrow> (Inr None, [Run (''mpremote'' # args)])
      | CalledProcessError e \<Rightarrow> (Inl (SystemExit 1), [Run (''mpremote'' # args), failure_line e]))"
  by (simp add: run_mpremote_def failure_line_def Let_def split: outcome.splits)

lemma create_folders_trace:
  "create_folders dev folders = (Inr (), map (\<lambda>f. Run (mkdir_command f)) folders)"
  by (induction folders) (simp_all add: run_mpremote_quiet mkdir_command_def esp_colon)

lemma runs_append: "runs (xs @ ys) = runs xs @ runs ys"
  by (simp add: runs_def)

lemma runs_Cons:
  "runs (Run c # evs) = c # runs evs" "runs (Print s # evs) = runs evs"
  "runs (ReadMarker # evs) = runs evs" "runs (WriteMarker t # evs) = runs evs" "runs [] = []"
  by (simp_all add: runs_def)

lemma runs_failure_line: "runs (failure_line e # evs) = runs evs"
  by (simp add: failure_line_def runs_Cons)

lemma runs_map_Run: "runs (map (\<lambda>f. Run (g f)) xs) = map g xs"
  by (induction xs) (simp_all add: runs_Cons)

lemma upload_files_Cons:
  "upload_files dev root_str (f # files) =
     (case dev (cp_command root_str (fst f)) of
        Completed out \<Rightarrow>
          (fst (upload_files dev root_str files),
           [Run (cp_command root_str (fst f)), Print (''Uploaded: '' @ as_posix (fst f))]
             @ snd (upload_files dev root_str files))
      | CalledProcessError e \<Rightarrow>
          (Inl (SystemExit 1), [Run (cp_command root_str (fst f)), failure_line e]))"
  by (simp add: run_mpremote_strict cp_command_def esp_colon Let_def
           split: outcome.splits prod.splits)

lemma upload_files_ok:
  "fst (upload_files dev root_str files) = Inr () \<Longrightarrow>
     runs (snd (upload_files dev root_str files)) = map (\<lambda>f. cp_command root_str (fst f)) files"
proof (induction files)
  case Nil
  then show ?case by (simp add: runs_Cons)
next
  case (Cons f files)
  then show ?case
    by (simp only: upload_files_Cons split: outcome.splits)
       (auto simp: runs_Cons runs_append split: outcome.splits)
qed

lemma upload_files_prefix:
  "\<exists>k. runs (snd (upload_files dev root_str files)) = take k (map (\<lambda>f. cp_command root_str (fst f)) files)"
proof (induction files)
  case Nil
  then show ?case by (simp add: runs_Cons)
next
  case (Cons f files)
  then obtain k where k: "runs (snd (upload_files dev root_str files)) = take k (map (\<lambda>f. cp_command root_str (fst f)) files)"
    by blast
  show ?case
  proof (cases "dev (cp_command root_str (fst f))")
    case (Completed out)
    then have "runs (snd (upload_files dev root_str (f # files)))
        = take (Suc k) (map (\<lambda>f. cp_command root_str (fst f)) (f # files))"
      using k by (simp add: upload_files_Cons runs_Cons del: upload_files.simps)
    then show ?thesis by blast
  next
    case (CalledProcessError e)
    then have "runs (snd (upload_files dev root_str (f # files)))
        = take (Suc 0) (map (\<lambda>f. cp_command root_str (fst f)) (f # files))"
      by (simp add: upload_files_Cons runs_Cons runs_failure_line del: upload_files.simps)
    then show ?thesis by blast
  qed
qed

lemma upload_files_result:
  "fst (upload_files dev root_str files) = Inr () \<or> fst (upload_files dev root_str files) = Inl (SystemExit 1)"
proof (induction files)
  case Nil
  show ?case by simp
next
  case (Cons f files)
  then show ?case
    by (cases "dev (cp_command root_str (fst f))")
       (simp_all add: upload_files_Cons del: upload_files.simps)
qed

lemma marker_read_cases:
  "snd (get_last_upload_time es) = [] \<or> snd (get_last_upload_time es) = [ReadMarker]"
  by (simp add: get_last_upload_time_def split: option.splits node.splits content.splits)

lemma runs_marker_read: "runs (snd (get_last_upload_time es)) = []"
  using marker_read_cases[of es] by (auto simp: runs_Cons)

lemma upload_unreadable_marker:
  "fst (get_last_upload_time es) = Inl e \<Longrightarrow>
     upload_path dev now root_str (Some (Dir es)) force
       = (Inl e, snd (get_last_upload_time es), Some (Dir es))"
  by (cases "get_last_upload_time es") (simp add: upload_path_def)

lemma upload_nothing:
  "fst (get_last_upload_time es) = Inr T \<Longrightarrow> files_to_upload es force T = [] \<Longrightarrow>
     upload_path dev now root_str (Some (Dir es)) force
       = (Inr (),
          snd (get_last_upload_time es)
            @ [scanning_line root_str, Print ''No files were modified since the last upload.''],
          Some (Dir es))"
  by (cases "get_last_upload_time es") (simp add: upload_path_def)

lemma upload_copy_failed:
  "fst (get_last_upload_time es) = Inr T \<Longrightarrow> files_to_upload es force T \<noteq> [] \<Longrightarrow>
   fst (upload_files dev root_str (files_to_upload es force T)) = Inl e \<Longrightarrow>
     upload_path dev now root_str (Some (Dir es)) force
       = (Inl e,
          snd (get_last_upload_time es) @ [scanning_line root_str]
            @ map (\<lambda>f. Run (mkdir_command f)) (sort (remdups (folders_to_create (files_to_upload es force T))))
            @ snd (upload_files dev root_str (files_to_upload es force T)),
          Some (Dir es))"
  by (cases "get_last_upload_time es"; cases "upload_files dev root_str (files_to_upload es force T)")
     (simp add: upload_path_def create_folders_trace Let_def)

lemma upload_done:
  "fst (get_last_upload_time es) = Inr T \<Longrightarrow> files_to_upload es force T \<noteq> [] \<Longrightarrow>
   fst (upload_files dev root_str (files_to_upload es force T)) = Inr () \<Longrightarrow>
     upload_path dev now root_str (Some (Dir es)) force
       = (Inr (),
          snd (get_last_upload_time es) @ [scanning_line root_str]
            @ map (\<lambda>f. Run (mkdir_command f)) (sort (remdups (folders_to_create (files_to_upload es force T))))
            @ snd (upload_files dev root_str (files_to_upload es force T))
            @ [WriteMarker now, Print ([CHR 0x0A] @ ''Upload complete.'')],
          Some (Dir (write_entry TIMESTAMP_FILE_NAME (File now (FloatText now)) es)))"
  by (cases "get_last_upload_time es"; cases "upload_files dev root_str (files_to_upload es force T)")
     (simp add: upload_path_def create_folders_trace Let_def update_upload_time_def)

lemma map_of_write_entry: "map_of (write_entry n x es) n = Some x"
  by (induction es) auto

lemma marker_after_write:
  "get_last_upload_time (write_entry TIMESTAMP_FILE_NAME (File now (FloatText now)) es)
     = (Inr now, [ReadMarker])"
  by (simp add: get_last_upload_time_def map_of_write_entry)

lemma is_copy_cp [simp]: "is_copy (cp_command root_str p)"
  by (simp add: is_copy_def cp_command_def)

lemma not_is_copy_mkdir [simp]: "\<not> is_copy (mkdir_command f)"
  by (simp add: is_copy_def mkdir_command_def)

lemma filter_copy_mkdirs: "filter is_copy (map mkdir_command fs) = []"
  by (induction fs) simp_all

lemma filter_copy_take: "filter is_copy (take k (map (\<lambda>f. cp_command r (fst f)) fs))
    = take k (map (\<lambda>f. cp_command r (fst f)) fs)"
proof (rule filter_True, rule ballI)
  fix x assume "x \<in> set (take k (map (\<lambda>f. cp_command r (fst f)) fs))"
  then have "x \<in> set (map (\<lambda>f. cp_command r (fst f)) fs)" by (rule in_set_takeD)
  then show "is_copy x" by auto
qed

lemma wanted_iff:
  "wanted force T (p, x) \<longleftrightarrow>
     (\<exists>m t. x = File m t \<and> (force \<or> T < m)) \<and> suffix p \<notin> set IGNORED_SUFFIXES"
  by (cases x) (auto simp: wanted_def)

lemma set_files_to_upload:
  "set (files_to_upload es force T) =
     {(p, x). x \<in> set (nodes_at es p) \<and> (\<exists>m t. x = File m t \<and> (force \<or> T < m))
              \<and> suffix p \<notin> set IGNORED_SUFFIXES}"
  unfolding files_to_upload_def set_filter
  using rglob_root_iff wanted_iff by (auto simp del: rglob.simps)

lemma upload_copies:
  assumes "fst (get_last_upload_time es) = Inr T"
      and "upload_path dev now root_str (Some (Dir es)) force = (res, evs, local')"
  shows "(\<exists>k. filter is_copy (runs evs)
               = take k (map (\<lambda>f. cp_command root_str (fst f)) (files_to_upload es force T)))"
    and "res = Inr () \<Longrightarrow>
           filter is_copy (runs evs)
             = map (\<lambda>f. cp_command root_str (fst f)) (files_to_upload es force T)"
proof -
  let ?files = "files_to_upload es force T"
  let ?cps = "map (\<lambda>f. cp_command root_str (fst f)) ?files"
  let ?up = "upload_files dev root_str ?files"
  obtain k where k: "runs (snd ?up) = take k ?cps" using upload_files_prefix by blast
  have pre: "filter is_copy (runs (snd (get_last_upload_time es) @ [scanning_line root_str]
        @ map (\<lambda>f. Run (mkdir_command f)) (sort (remdups (folders_to_create ?files))) @ snd ?up @ tl))
      = take k ?cps @ filter is_copy (runs tl)" for tl
    by (simp add: runs_append runs_marker_read scanning_line_def runs_Cons runs_map_Run
                  filter_copy_mkdirs k filter_copy_take)
  consider (empty) "?files = []"
    | (failed) e where "?files \<noteq> []" "fst ?up = Inl e"
    | (copied) "?files \<noteq> []" "fst ?up = Inr ()"
    by (cases "fst ?up") auto
  then have "(\<exists>k. filter is_copy (runs evs) = take k ?cps) \<and>
             (res = Inr () \<longrightarrow> filter is_copy (runs evs) = ?cps)"
  proof cases
    case empty
    with assms upload_nothing[OF assms(1), of force dev now root_str]
    have "evs = snd (get_last_upload_time es)
            @ [scanning_line root_str, Print ''No files were modified since the last upload.'']"
      by simp
    then have "runs evs = []"
      by (simp add: runs_append runs_marker_read scanning_line_def runs_Cons)
    with empty show ?thesis by simp
  next
    case failed
    with assms upload_copy_failed[OF assms(1) failed(1), of dev root_str e now]
    have ev: "evs = snd (get_last_upload_time es) @ [scanning_line root_str]
            @ map (\<lambda>f. Run (mkdir_command f)) (sort (remdups (folders_to_create ?files)))
            @ snd ?up @ []" and "res = Inl e"
      by simp_all
    have "filter is_copy (runs evs) = take k ?cps"
      unfolding ev pre by (simp add: runs_Cons)
    with \<open>res = Inl e\<close> show ?thesis by blast
  next
    case copied
    with assms upload_done[OF assms(1) copied(1), of dev root_str now]
    have ev: "evs = snd (get_last_upload_time es) @ [scanning_line root_str]
            @ map (\<lambda>f. Run (mkdir_command f)) (sort (remdups (folders_to_create ?files)))
            @ snd ?up @ [WriteMarker now, Print ([CHR 0x0A] @ ''Upload complete.'')]"
      by simp
    have "filter is_copy (runs evs) = take k ?cps"
      unfolding ev pre by (simp add: runs_Cons)
    moreover have "take k ?cps = ?cps"
      using k upload_files_ok[OF copied(2)] by simp
    ultimately show ?thesis by (metis take_all_iff order_refl)
  qed
  then show "(\<exists>k. filter is_copy (runs evs) = take k ?cps)"
    and "res = Inr () \<Longrightarrow> filter is_copy (runs evs) = ?cps"
    by blast+
qed


section \<open>Evaluating concrete runs\<close>

lemmas upload_eval =
  upload_path_def get_last_upload_time_def TIMESTAMP_FILE_NAME_def files_to_upload_def
  wanted_def suffix_def suffix_of_def path_name_def IGNORED_SUFFIXES_def parent_def as_posix_def
  run_mpremote_def rstrip_chars_def ESP_ROOT_def str_under_def update_upload_time_def
  Let_def strip_def lstrip_def rstrip_def


lemma project_marker: "fst (get_last_upload_time project) = Inr 5"
  by (simp add: get_last_upload_time_def project_def TIMESTAMP_FILE_NAME_def)

lemma project_files: "files_to_upload project False 5
   = [([''a.py''], File 10 OtherText), ([''sub'', ''b.py''], File 12 OtherText)]"
  by (simp add: upload_eval project_def)

lemma project_run:
  "upload_path dev_ok 100 ''/proj'' (Some (Dir project)) False =
     (Inr (),
      [ReadMarker, scanning_line ''/proj'',
       Run [''mpremote'', ''fs'', ''mkdir'', '':/.''],
       Run [''mpremote'', ''fs'', ''mkdir'', '':/sub''],
       Run [''mpremote'', ''fs'', ''cp'', ''/proj/a.py'', '':/a.py''],
       Print ''Uploaded: a.py'',
       Run [''mpremote'', ''fs'', ''cp'', ''/proj/sub/b.py'', '':/sub/b.py''],
       Print ''Uploaded: sub/b.py'',
       WriteMarker 100,
       Print ([CHR 0x0A] @ ''Upload complete.'')],
      Some (Dir [(''a.py'', File 10 OtherText),
                 (''old.md'', File 11 OtherText),
                 (''sub'', Dir [(''b.py'', File 12 OtherText)]),
                 (''last_upload_time.txt'', File 100 (FloatText 100))]))"
  by (simp add: upload_eval project_def dev_ok_def)

lemma join_slash: "CHR ''/'' \<in> set (join ''/'' (n # m # r))"
  by simp

lemma marker_name_ignored: "suffix [TIMESTAMP_FILE_NAME] \<in> set IGNORED_SUFFIXES"
  by (simp add: suffix_def suffix_of_def path_name_def TIMESTAMP_FILE_NAME_def IGNORED_SUFFIXES_def Let_def)

lemma candidate_not_marker:
  assumes "(p, x) \<in> set (files_to_upload es force T)"
  shows "as_posix p \<noteq> TIMESTAMP_FILE_NAME"
proof
  assume eq: "as_posix p = TIMESTAMP_FILE_NAME"
  from assms have sfx: "suffix p \<notin> set IGNORED_SUFFIXES"
    unfolding set_files_to_upload by simp
  show False
  proof (cases p)
    case Nil
    with eq show False by (simp add: as_posix_def TIMESTAMP_FILE_NAME_def)
  next
    case (Cons n r)
    show False
    proof (cases r)
      case Nil
      with Cons eq have "p = [TIMESTAMP_FILE_NAME]" by (simp add: as_posix_def)
      with sfx marker_name_ignored show False by simp
    next
      case (Cons m r')
      with \<open>p = n # r\<close> have "CHR ''/'' \<in> set (as_posix p)"
        unfolding as_posix_def using join_slash[of n m r'] by simp
      with eq show False by (simp add: TIMESTAMP_FILE_NAME_def)
    qed
  qed
qed

lemma upload_runs_none:
  "\<not> is_dir local \<Longrightarrow> runs (fst (snd (upload_path dev now root_str local force))) = []"
  by (cases local rule: is_dir.cases) (simp_all add: upload_path_def runs_def)

lemma upload_runs_unreadable:
  "fst (get_last_upload_time es) = Inl e \<Longrightarrow>
     runs (fst (snd (upload_path dev now root_str (Some (Dir es)) force))) = []"
  by (simp add: upload_unreadable_marker runs_marker_read)

lemma upload_runs:
  assumes "fst (get_last_upload_time es) = Inr T"
  shows "\<exists>k. runs (fst (snd (upload_path dev now root_str (Some (Dir es)) force))) =
           (if files_to_upload es force T = [] then []
            else map mkdir_command (sort (remdups (folders_to_create (files_to_upload es force T))))
                 @ take k (map (\<lambda>f. cp_command root_str (fst f)) (files_to_upload es force T)))"
proof -
  let ?files = "files_to_upload es force T"
  let ?up = "upload_files dev root_str ?files"
  let ?mk = "map mkdir_command (sort (remdups (folders_to_create ?files)))"
  obtain k where k: "runs (snd ?up) = take k (map (\<lambda>f. cp_command root_str (fst f)) ?files)"
    using upload_files_prefix by blast
  have sc: "runs (scanning_line root_str # tl) = runs tl" for tl
    by (simp add: scanning_line_def runs_Cons)
  consider (empty) "?files = []" | (failed) "?files \<noteq> []" "fst ?up = Inl (SystemExit 1)"
    | (copied) "?files \<noteq> []" "fst ?up = Inr ()"
    using upload_files_result[of dev root_str ?files] by blast
  then have "runs (fst (snd (upload_path dev now root_str (Some (Dir es)) force))) =
           (if ?files = [] then [] else ?mk @ take k (map (\<lambda>f. cp_command root_str (fst f)) ?files))"
  proof cases
    case empty
    then show ?thesis
      by (simp add: upload_nothing[OF assms] runs_append runs_marker_read scanning_line_def runs_Cons)
  next
    case failed
    then show ?thesis
      by (simp add: upload_copy_failed[OF assms failed] runs_append runs_marker_read sc
                    runs_map_Run k)
  next
    case copied
    then show ?thesis
      by (simp add: upload_done[OF assms copied] runs_append runs_marker_read sc
                    runs_map_Run k runs_Cons)
  qed
  then show ?thesis by blast
qed


section \<open>Claims about the upload operation\<close>

text \<open>
  Claim C6. When the root path does not name an existing directory, the upload prints one
  diagnostic and leaves with \<^verbatim>\<open>SystemExit(1)\<close>, a non-zero status. The trace holds
  nothing else: no device command was run and the marker file was neither read nor
  written, and the local tree is as it was.
\<close>

theorem upload_rejects_missing_root:
  "\<not> is_dir local \<Longrightarrow>
     upload_path dev now root_str local force =
       (Inl (SystemExit 1), [Print (''Error: Directory not found at '' @ root_str)], local)"
  by (cases local rule: is_dir.cases) (simp_all add: upload_path_def)

theorem upload_rejects_missing_root_witness:
  "\<not> is_dir None \<and>
   upload_path dev_down 100 ''/nowhere'' None True =
     (Inl (SystemExit 1), [Print ''Error: Directory not found at /nowhere''], None)"
  using upload_rejects_missing_root[of None dev_down 100 "''/nowhere''" True] by simp

text \<open>
  Claim C4. When the marker is readable and no file is selected, the upload prints that
  nothing was modified and returns normally; it runs no device command (neither mkdir nor
  copy), writes no marker, and leaves the local tree, the marker file in it included, as
  it was.
\<close>

theorem upload_nothing_to_do:
  assumes "fst (get_last_upload_time es) = Inr T" and "files_to_upload es force T = []"
  shows "fst (upload_path dev now root_str (Some (Dir es)) force) = Inr () \<and>
         runs (fst (snd (upload_path dev now root_str (Some (Dir es)) force))) = [] \<and>
         marker_writes (fst (snd (upload_path dev now root_str (Some (Dir es)) force))) = [] \<and>
         snd (snd (upload_path dev now root_str (Some (Dir es)) force)) = Some (Dir es) \<and>
         prints (fst (snd (upload_path dev now root_str (Some (Dir es)) force)))
           = prints [scanning_line root_str] @ [''No files were modified since the last upload.'']"
proof -
  have m: "marker_writes (snd (get_last_upload_time es)) = []"
          "prints (snd (get_last_upload_time es)) = []"
    using marker_read_cases[of es] by (auto simp: marker_writes_def prints_def)
  show ?thesis
    unfolding upload_nothing[OF assms]
    using m runs_marker_read[of es]
    by (simp add: runs_def marker_writes_def prints_def scanning_line_def)
qed

theorem upload_nothing_to_do_witness:
  "fst (get_last_upload_time stale_dir) = Inr 5 \<and> files_to_upload stale_dir False 5 = [] \<and>
   fst (upload_path dev_down 100 ''/proj'' (Some (Dir stale_dir)) False) = Inr () \<and>
   runs (fst (snd (upload_path dev_down 100 ''/proj'' (Some (Dir stale_dir)) False))) = [] \<and>
   marker_writes (fst (snd (upload_path dev_down 100 ''/proj'' (Some (Dir stale_dir)) False))) = [] \<and>
   snd (snd (upload_path dev_down 100 ''/proj'' (Some (Dir stale_dir)) False)) = Some (Dir stale_dir)"
proof -
  have h1: "fst (get_last_upload_time stale_dir) = Inr 5"
    by (simp add: get_last_upload_time_def stale_dir_def TIMESTAMP_FILE_NAME_def)
  have h2: "files_to_upload stale_dir False 5 = []"
    by (simp add: upload_eval stale_dir_def)
  show ?thesis
    using upload_nothing_to_do[OF h1 h2, of dev_down 100 "''/proj''"] h1 h2 by simp
qed

text \<open>
  Claim C5. After an upload that returns normally with a non-empty candidate list, the
  marker file holds the clock reading taken at the end of the run, and that is the only
  marker write. So, when the clock is past the old marker, the marker has strictly
  increased, and when no candidate is stamped later than the clock, the marker is at
  least the modification time of every uploaded file.
\<close>

theorem upload_rewrites_marker:
  assumes "fst (get_last_upload_time es) = Inr T"
      and "files_to_upload es force T \<noteq> []"
      and "upload_path dev now root_str (Some (Dir es)) force = (Inr (), evs, local')"
  shows "\<exists>es' T'. local' = Some (Dir es') \<and> fst (get_last_upload_time es') = Inr T' \<and> T' = now \<and>
           marker_writes evs = [now] \<and>
           (T < now \<longrightarrow> T < T') \<and>
           ((\<forall>f \<in> set (files_to_upload es force T). mtime (snd f) \<le> now) \<longrightarrow>
            (\<forall>f \<in> set (files_to_upload es force T). mtime (snd f) \<le> T'))"
proof -
  let ?files = "files_to_upload es force T"
  let ?up = "upload_files dev root_str ?files"
  have ok: "fst ?up = Inr ()"
  proof (rule ccontr)
    assume "fst ?up \<noteq> Inr ()"
    then have "fst ?up = Inl (SystemExit 1)" using upload_files_result by blast
    from upload_copy_failed[OF assms(1,2) this, of now] assms(3) show False by simp
  qed
  have no_writes: "marker_writes (map (\<lambda>f. Run (mkdir_command f)) fs) = []" for fs
    by (induction fs) (simp_all add: marker_writes_def)
  have up_writes: "marker_writes (snd (upload_files dev root_str fs)) = []" for fs
  proof (induction fs)
    case Nil
    show ?case by (simp add: marker_writes_def)
  next
    case (Cons f fs)
    then show ?case
      by (cases "dev (cp_command root_str (fst f))")
         (simp_all add: upload_files_Cons marker_writes_def failure_line_def del: upload_files.simps)
  qed
  have rd: "marker_writes (snd (get_last_upload_time es)) = []"
    using marker_read_cases[of es] by (auto simp: marker_writes_def)
  have app: "marker_writes (xs @ ys) = marker_writes xs @ marker_writes ys" for xs ys
    by (simp add: marker_writes_def)
  from upload_done[OF assms(1,2) ok, of now] assms(3)
  have l: "local' = Some (Dir (write_entry TIMESTAMP_FILE_NAME (File now (FloatText now)) es))"
    and e: "evs = snd (get_last_upload_time es) @ [scanning_line root_str]
            @ map (\<lambda>f. Run (mkdir_command f)) (sort (remdups (folders_to_create ?files)))
            @ snd ?up @ [WriteMarker now, Print ([CHR 0x0A] @ ''Upload complete.'')]"
    by simp_all
  have w: "marker_writes evs = [now]"
    unfolding e app rd no_writes up_writes
    by (simp add: marker_writes_def scanning_line_def)
  show ?thesis
    using l w marker_after_write[of now es] by simp
qed

theorem upload_rewrites_marker_witness:
  "fst (get_last_upload_time project) = Inr 5 \<and> files_to_upload project False 5 \<noteq> [] \<and>
   (\<exists>es' T'. snd (snd (upload_path dev_ok 100 ''/proj'' (Some (Dir project)) False)) = Some (Dir es') \<and>
      fst (get_last_upload_time es') = Inr T' \<and> T' = 100 \<and> (5::real) < T')"
proof -
  have h2: "files_to_upload project False 5 \<noteq> []" by (simp add: project_files)
  show ?thesis
    using upload_rewrites_marker[OF project_marker h2 project_run] project_marker h2 project_run
    by auto
qed

text \<open>
  What the scanning loop selects. With \<^verbatim>\<open>force=False\<close> and a marker that reads \<open>T\<close>
  (\<open>0\<close> when there is no marker file), the candidates are the regular files below the
  root, at any depth, whose modification time is strictly greater than \<open>T\<close> and whose
  \<^verbatim>\<open>Path.suffix\<close> is not an entry of the list. The copy requests of the run are always
  an initial part of the candidates' requests, in the candidates' order, and all of them
  when the run returns normally.
\<close>

lemma upload_candidates_by_suffix:
  assumes "fst (get_last_upload_time es) = Inr T"
      and "upload_path dev now root_str (Some (Dir es)) False = (res, evs, local')"
  shows "set (files_to_upload es False T) =
           {(p, x). x \<in> set (nodes_at es p) \<and> (\<exists>m t. x = File m t \<and> T < m)
                    \<and> suffix p \<notin> set IGNORED_SUFFIXES} \<and>
         (\<exists>k. filter is_copy (runs evs)
                 = take k (map (\<lambda>f. cp_command root_str (fst f)) (files_to_upload es False T))) \<and>
         (res = Inr () \<longrightarrow>
            filter is_copy (runs evs)
              = map (\<lambda>f. cp_command root_str (fst f)) (files_to_upload es False T))"
  using set_files_to_upload[of es False T] upload_copies[OF assms] by simp

text \<open>
  Claim C1 says that with \<^verbatim>\<open>force=False\<close> the candidates are exactly the files newer
  than the marker whose extension is not in the denylist. The rule on modification times
  and the depth of nesting hold as lemma \<open>upload_candidates_by_suffix\<close> states them, but
  the test on the extension misses files that the list names: in a directory with no
  marker file (the marker reads \<open>0\<close>) that holds \<^verbatim>\<open>backup.tar.gz\<close> and \<^verbatim>\<open>.gitignore\<close>,
  both are candidates, although their names end in the list's entries \<^verbatim>\<open>.tar.gz\<close> and
  \<^verbatim>\<open>.gitignore\<close>.
\<close>

theorem upload_selects_denylisted_names:
  "fst (get_last_upload_time archive_dir) = Inr 0 \<and>
   files_to_upload archive_dir False 0 =
     [([''backup.tar.gz''], File 10 OtherText), ([''.gitignore''], File 10 OtherText)] \<and>
   endswith ''backup.tar.gz'' ''.tar.gz'' \<and> ''.tar.gz'' \<in> set IGNORED_SUFFIXES \<and>
   endswith ''.gitignore'' ''.gitignore'' \<and> ''.gitignore'' \<in> set IGNORED_SUFFIXES"
  by (simp add: upload_eval archive_dir_def endswith_def)

text \<open>
  Claim C10. The marker file \<^verbatim>\<open>last_upload_time.txt\<close> at the top level of the root is
  never a candidate, and no run of the upload, whatever the device, the flag and the
  tree, issues a copy request whose target is \<^verbatim>\<open>:/last_upload_time.txt\<close>: its suffix
  \<^verbatim>\<open>.txt\<close> is in the denylist.
\<close>

theorem upload_skips_marker_file:
  "[''mpremote'', ''fs'', ''cp'', src, '':/'' @ TIMESTAMP_FILE_NAME]
      \<notin> set (runs (fst (snd (upload_path dev now root_str local force)))) \<and>
   ([TIMESTAMP_FILE_NAME], x) \<notin> set (files_to_upload es force T)"
proof
  let ?c = "[''mpremote'', ''fs'', ''cp'', src, '':/'' @ TIMESTAMP_FILE_NAME]"
  show "?c \<notin> set (runs (fst (snd (upload_path dev now root_str local force))))"
  proof (cases "is_dir local")
    case False
    then show ?thesis by (simp add: upload_runs_none)
  next
    case True
    then obtain ds where l: "local = Some (Dir ds)" by (cases local rule: is_dir.cases) simp_all
    show ?thesis
    proof (cases "fst (get_last_upload_time ds)")
      case (Inl e)
      then show ?thesis unfolding l by (simp add: upload_runs_unreadable)
    next
      case (Inr T')
      from upload_runs[OF Inr, of dev now root_str force] obtain k where
        k: "runs (fst (snd (upload_path dev now root_str (Some (Dir ds)) force))) =
           (if files_to_upload ds force T' = [] then []
            else map mkdir_command (sort (remdups (folders_to_create (files_to_upload ds force T'))))
                 @ take k (map (\<lambda>f. cp_command root_str (fst f)) (files_to_upload ds force T')))"
        by blast
      show ?thesis
      proof
        assume "?c \<in> set (runs (fst (snd (upload_path dev now root_str local force))))"
        then have "?c \<in> set (map mkdir_command (sort (remdups (folders_to_create (files_to_upload ds force T')))))
            \<or> ?c \<in> set (take k (map (\<lambda>f. cp_command root_str (fst f)) (files_to_upload ds force T')))"
          unfolding l k by (auto split: if_splits)
        then show False
        proof
          assume "?c \<in> set (map mkdir_command (sort (remdups (folders_to_create (files_to_upload ds force T')))))"
          then show False by (auto simp: mkdir_command_def)
        next
          assume "?c \<in> set (take k (map (\<lambda>f. cp_command root_str (fst f)) (files_to_upload ds force T')))"
          then have "?c \<in> set (map (\<lambda>f. cp_command root_str (fst f)) (files_to_upload ds force T'))"
            by (rule in_set_takeD)
          then obtain p y where py: "(p, y) \<in> set (files_to_upload ds force T')"
            and "?c = cp_command root_str p" by auto
          then have "as_posix p = TIMESTAMP_FILE_NAME" by (simp add: cp_command_def)
          with candidate_not_marker[OF py] show False by simp
        qed
      qed
    qed
  qed
next
  show "([TIMESTAMP_FILE_NAME], x) \<notin> set (files_to_upload es force T)"
    using candidate_not_marker[of "[TIMESTAMP_FILE_NAME]" x es force T]
    by (auto simp: as_posix_def)
qed

theorem upload_skips_marker_file_witness:
  "[''mpremote'', ''fs'', ''cp'', ''/proj/last_upload_time.txt'', '':/last_upload_time.txt'']
      \<notin> set (runs (fst (snd (upload_path dev_ok 100 ''/proj'' (Some (Dir project)) True)))) \<and>
   ([''last_upload_time.txt''], File 5 (FloatText 5)) \<notin> set (files_to_upload project True 0)"
  using upload_skips_marker_file[of "''/proj/last_upload_time.txt''" dev_ok 100 "''/proj''"
          "Some (Dir project)" True "File 5 (FloatText 5)" project 0]
  by (simp add: TIMESTAMP_FILE_NAME_def)

text \<open>
  Claim C2 says that a file whose extension is in the denylist, \<^verbatim>\<open>.tar.gz\<close> and
  \<^verbatim>\<open>.gitignore\<close> among its examples, is never a candidate and never copied. The script
  compares \<^verbatim>\<open>Path.suffix\<close> with the list: for \<^verbatim>\<open>backup.tar.gz\<close> that is \<^verbatim>\<open>.gz\<close> and for
  \<^verbatim>\<open>.gitignore\<close> it is empty, so both files are copied although \<^verbatim>\<open>.tar.gz\<close> and
  \<^verbatim>\<open>.gitignore\<close> are entries of the list. The run below has no marker file and
  \<^verbatim>\<open>force=False\<close>.
\<close>

theorem upload_copies_tar_gz:
  "suffix [''backup.tar.gz''] = ''.gz'' \<and> suffix [''.gitignore''] = [] \<and>
   ''.tar.gz'' \<in> set IGNORED_SUFFIXES \<and> ''.gitignore'' \<in> set IGNORED_SUFFIXES \<and>
   filter is_copy (runs (fst (snd (upload_path dev_ok 100 ''/proj'' (Some (Dir archive_dir)) False))))
     = [[''mpremote'', ''fs'', ''cp'', ''/proj/backup.tar.gz'', '':/backup.tar.gz''],
        [''mpremote'', ''fs'', ''cp'', ''/proj/.gitignore'', '':/.gitignore'']]"
  by (simp add: upload_eval archive_dir_def dev_ok_def runs_def is_copy_def scanning_line_def)

text \<open>
  Claim C3 says that directory-creation requests are issued for the relative parent
  directories of the candidates and for no other path. For a candidate at the top level
  of the root, \<^verbatim>\<open>relative_to(path).parent.as_posix()\<close> is \<^verbatim>\<open>.\<close>, which is not empty, so
  the test \<^verbatim>\<open>if relative_folder\<close> lets it through and the run requests \<^verbatim>\<open>mkdir :/.\<close>.
  On the specification's example (\<^verbatim>\<open>a.py\<close>, \<^verbatim>\<open>old.md\<close>, \<^verbatim>\<open>sub/b.py\<close>) the requests are
  for \<^verbatim>\<open>:/.\<close> and \<^verbatim>\<open>:/sub\<close>, where the specification expects \<^verbatim>\<open>sub\<close> alone. What does
  hold in general is lemma \<open>upload_runs\<close>: the requests are one mkdir for each distinct
  element of \<open>folders_to_create\<close>, in sorted order, followed by the copies.
\<close>

theorem upload_requests_mkdir_for_root:
  "runs (fst (snd (upload_path dev_ok 100 ''/proj'' (Some (Dir project)) False)))
     = [[''mpremote'', ''fs'', ''mkdir'', '':/.''],
        [''mpremote'', ''fs'', ''mkdir'', '':/sub''],
        [''mpremote'', ''fs'', ''cp'', ''/proj/a.py'', '':/a.py''],
        [''mpremote'', ''fs'', ''cp'', ''/proj/sub/b.py'', '':/sub/b.py'']]"
  by (simp add: project_run runs_def scanning_line_def)


section \<open>Reading the lines of a listing\<close>

lemma rstrip_Cons:
  "rstrip (c # s) = (if \<forall>x \<in> set (c # s). isspace x then [] else c # rstrip s)"
  by (auto simp: rstrip_def dropWhile_append dropWhile_eq_Nil_conv)

lemma split_from_spaces: "\<forall>x \<in> set s. isspace x \<Longrightarrow> split_from cur s = (if cur = [] then [] else [cur])"
  by (induction s arbitrary: cur) auto

lemma split_from_rstrip: "split_from cur (rstrip s) = split_from cur s"
proof (induction s arbitrary: cur)
  case Nil
  show ?case by (simp add: rstrip_def)
next
  case (Cons c s)
  show ?case
  proof (cases "\<forall>x \<in> set (c # s). isspace x")
    case True
    then show ?thesis using split_from_spaces[of "c # s" cur] by (simp add: rstrip_Cons)
  next
    case False
    then have "rstrip (c # s) = c # rstrip s" by (simp add: rstrip_Cons)
    then show ?thesis using Cons by simp
  qed
qed

lemma split_from_lstrip: "split_from [] (lstrip s) = split_from [] s"
  by (induction s) (simp_all add: lstrip_def)

lemma split_strip: "split (strip s) = split s"
  by (simp add: split_def strip_def split_from_rstrip split_from_lstrip)

lemma lstrip_rstrip_lstrip: "lstrip (rstrip (lstrip s)) = rstrip (lstrip s)"
proof (cases "lstrip s")
  case Nil
  show ?thesis unfolding Nil by (simp add: rstrip_def lstrip_def)
next
  case (Cons c t)
  then have c: "\<not> isspace c"
    unfolding lstrip_def by (metis dropWhile_eq_Cons_conv)
  then have "rstrip (c # t) = c # rstrip t" by (auto simp: rstrip_Cons)
  with Cons c show ?thesis by (simp add: lstrip_def)
qed

lemma rstrip_idem: "rstrip (rstrip s) = rstrip s"
  by (simp add: rstrip_def)

lemma strip_idem: "strip (strip s) = strip s"
  by (simp add: strip_def lstrip_rstrip_lstrip rstrip_idem)

lemma classify_spec:
  "classify files subdirs ls = (files @ listed_files ls, subdirs @ listed_subdirs ls)"
proof (induction ls arbitrary: files subdirs)
  case Nil
  show ?case by (simp add: listed_files_def listed_subdirs_def entry_names_def)
next
  case (Cons l ls)
  show ?case
    by (simp add: Cons split_strip Let_def listed_files_def listed_subdirs_def entry_names_def)
qed


section \<open>Steps of the list-files operation\<close>

lemma run_mpremote_capture:
  "run_mpremote dev [''fs'', ''ls'', b] True True =
     (case dev (ls_command b) of
        Completed out \<Rightarrow> (Inr (Some (strip out)), [Run (ls_command b)])
      | CalledProcessError e \<Rightarrow> (Inl (SystemExit 1), [Run (ls_command b), failure_line e]))"
  by (simp add: run_mpremote_def ls_command_def failure_line_def Let_def split: outcome.splits)

lemma list_failed:
  "dev (ls_command b) = CalledProcessError e \<Longrightarrow>
     list_all_files (Suc n) dev b = Some (Inr (), [Run (ls_command b), failure_line e])"
  by (simp add: run_mpremote_capture)

lemma list_short:
  "dev (ls_command b) = Completed out \<Longrightarrow> length (listing_lines dev b) < 2 \<Longrightarrow>
     list_all_files (Suc n) dev b = Some (Inr (), [Run (ls_command b)])"
  by (simp add: run_mpremote_capture listing_lines_def strip_idem Let_def)

lemma list_long:
  "dev (ls_command b) = Completed out \<Longrightarrow> 2 \<le> length (listing_lines dev b) \<Longrightarrow>
     list_all_files (Suc n) dev b =
       map_option (\<lambda>(res, evs). (res, [Run (ls_command b), header_of b]
                      @ file_lines b (listed_files (drop 1 (listing_lines dev b))) @ evs))
         (list_subdirs n dev (rstrip_chars ''/'' b) (listed_subdirs (drop 1 (listing_lines dev b))))"
  by (auto simp: run_mpremote_capture listing_lines_def strip_idem Let_def classify_spec
                 header_of_def file_lines_def split: option.splits)

lemma list_cases:
  obtains (failed) e where "dev (ls_command b) = CalledProcessError e"
  | (short) out where "dev (ls_command b) = Completed out" "length (listing_lines dev b) < 2"
  | (long) out where "dev (ls_command b) = Completed out" "2 \<le> length (listing_lines dev b)"
  by (cases "dev (ls_command b)"; cases "length (listing_lines dev b) < 2") auto

lemma list_subdirs_all:
  "\<forall>s \<in> set ss. \<exists>evs. list_all_files n dev (here @ ''/'' @ s) = Some (Inr (), evs) \<Longrightarrow>
     \<exists>evs. list_subdirs n dev here ss = Some (Inr (), evs)"
proof (induction ss)
  case Nil
  show ?case by simp
next
  case (Cons s ss)
  then obtain e1 e2 where "list_all_files n dev (here @ ''/'' @ s) = Some (Inr (), e1)"
    "list_subdirs n dev here ss = Some (Inr (), e2)" by auto
  then show ?case by simp
qed

lemma reported_subdirs_long:
  "2 \<le> length (listing_lines dev b) \<Longrightarrow>
     reported_subdirs dev b =
       map (\<lambda>s. rstrip_chars ''/'' b @ ''/'' @ s) (listed_subdirs (drop 1 (listing_lines dev b)))"
  by (simp add: reported_subdirs_def Let_def)

lemma listing_returns:
  "depth_within n dev b \<Longrightarrow> \<exists>evs. list_all_files n dev b = Some (Inr (), evs)"
proof (induction n arbitrary: b)
  case 0
  then show ?case by simp
next
  case (Suc n)
  show ?case
  proof (cases rule: list_cases[of dev b])
    case (failed e)
    then show ?thesis using list_failed[of dev b e n] by blast
  next
    case (short out)
    then show ?thesis using list_short[of dev b out n] by blast
  next
    case (long out)
    from Suc.prems have "list_all (depth_within n dev) (reported_subdirs dev b)" by simp
    then have "\<forall>s \<in> set (listed_subdirs (drop 1 (listing_lines dev b))).
                 depth_within n dev (rstrip_chars ''/'' b @ ''/'' @ s)"
      by (simp add: reported_subdirs_long[OF long(2)] list_all_iff)
    then have "\<forall>s \<in> set (listed_subdirs (drop 1 (listing_lines dev b))).
        \<exists>evs. list_all_files n dev (rstrip_chars ''/'' b @ ''/'' @ s) = Some (Inr (), evs)"
      using Suc.IH by blast
    from list_subdirs_all[OF this] obtain evs where
      "list_subdirs n dev (rstrip_chars ''/'' b) (listed_subdirs (drop 1 (listing_lines dev b)))
         = Some (Inr (), evs)" by blast
    then show ?thesis unfolding list_long[OF long] by simp
  qed
qed

lemma list_subdirs_result:
  assumes "\<And>b r evs. list_all_files n dev b = Some (r, evs) \<Longrightarrow> r = Inr ()"
  shows "list_subdirs n dev here ss = Some (r, evs) \<Longrightarrow> r = Inr ()"
proof (induction ss arbitrary: r evs)
  case Nil
  then show ?case by simp
next
  case (Cons s ss)
  then show ?case
    using assms[of "here @ ''/'' @ s"]
    by (auto split: option.splits sum.splits prod.splits)
qed

lemma list_result: "list_all_files n dev b = Some (r, evs) \<Longrightarrow> r = Inr ()"
proof (induction n arbitrary: b r evs)
  case 0
  then show ?case by simp
next
  case (Suc n)
  show ?case
  proof (cases rule: list_cases[of dev b])
    case (failed e)
    with Suc.prems list_failed[of dev b e n] show ?thesis by simp
  next
    case (short out)
    with Suc.prems list_short[of dev b out n] show ?thesis by simp
  next
    case (long out)
    with Suc.prems obtain r' evs' where
      sub: "list_subdirs n dev (rstrip_chars ''/'' b) (listed_subdirs (drop 1 (listing_lines dev b)))
              = Some (r', evs')" and "r = r'"
      unfolding list_long[OF long] by auto
    from list_subdirs_result[OF Suc.IH sub] \<open>r = r'\<close> show ?thesis by simp
  qed
qed

lemma list_subdirs_Cons:
  "list_subdirs n dev here (s # ss) =
     (case list_all_files n dev (here @ ''/'' @ s) of
        None \<Rightarrow> None
      | Some (r, evs) \<Rightarrow>
          map_option (\<lambda>(r', evs'). (r', evs @ evs')) (list_subdirs n dev here ss))"
proof (cases "list_all_files n dev (here @ ''/'' @ s)")
  case None
  then show ?thesis by simp
next
  case (Some x)
  obtain r evs where x: "x = (r, evs)" by (cases x)
  with Some list_result have "r = Inr ()" by blast
  with Some x show ?thesis by (auto split: option.splits)
qed

lemma list_subdirs_mono:
  assumes "\<And>b x. list_all_files n dev b = Some x \<Longrightarrow> list_all_files (n + k) dev b = Some x"
  shows "list_subdirs n dev here ss = Some y \<Longrightarrow> list_subdirs (n + k) dev here ss = Some y"
proof (induction ss arbitrary: y)
  case Nil
  then show ?case by simp
next
  case (Cons s ss)
  from Cons.prems obtain r evs r' evs' where
    a: "list_all_files n dev (here @ ''/'' @ s) = Some (r, evs)"
    and b: "list_subdirs n dev here ss = Some (r', evs')"
    and y: "y = (r', evs @ evs')"
    unfolding list_subdirs_Cons by (auto split: option.splits)
  from assms[OF a] Cons.IH[OF b] y show ?case
    unfolding list_subdirs_Cons by simp
qed

lemma list_mono: "list_all_files n dev b = Some x \<Longrightarrow> list_all_files (n + k) dev b = Some x"
proof (induction n arbitrary: b x)
  case 0
  then show ?case by simp
next
  case (Suc n)
  have eq: "Suc n + k = Suc (n + k)" by simp
  show ?case
  proof (cases rule: list_cases[of dev b])
    case (failed e)
    with Suc.prems show ?thesis unfolding eq using list_failed[of dev b e] by simp
  next
    case (short out)
    with Suc.prems show ?thesis unfolding eq using list_short[of dev b out] by simp
  next
    case (long out)
    from Suc.prems obtain y where
      sub: "list_subdirs n dev (rstrip_chars ''/'' b) (listed_subdirs (drop 1 (listing_lines dev b)))
              = Some y"
      unfolding list_long[OF long] by auto
    from list_subdirs_mono[OF Suc.IH sub] Suc.prems sub show ?thesis
      unfolding eq list_long[OF long] by auto
  qed
qed

lemma self_listing_never_returns: "list_all_files n self_listing '':/'' = None"
proof (induction n)
  case 0
  show ?case by simp
next
  case (Suc n)
  have l: "listing_lines self_listing '':/'' = [''ls'', ''           0 /'']"
    by (simp add: listing_lines_def self_listing_def ls_command_def strip_def lstrip_def rstrip_def
                  isspace_def whitespace_def splitlines_def is_linebreak_def linebreaks_def)
  have s: "listed_subdirs [''           0 /''] = [[]]"
    by (simp add: listed_subdirs_def entry_names_def split_def isspace_def whitespace_def
                  endswith_def rstrip_chars_def)
  have c: "self_listing (ls_command '':/'') = Completed (''ls'' @ [CHR 0x0A] @ ''           0 /'' @ [CHR 0x0A])"
    by (simp add: self_listing_def)
  have r: "rstrip_chars ''/'' '':/'' = '':''" by (simp add: rstrip_chars_def)
  have "list_all_files (Suc n) self_listing '':/'' =
          map_option (\<lambda>(res, evs). (res, [Run (ls_command '':/''), header_of '':/'']
                      @ file_lines '':/'' (listed_files [''           0 /'']) @ evs))
            (list_subdirs n self_listing '':'' [[]])"
    using list_long[of self_listing "'':/''" _ n] c by (simp add: l s r)
  then show ?case using Suc by simp
qed

lemmas listing_eval =
  listing_lines_def ls_command_def strip_def lstrip_def rstrip_def isspace_def whitespace_def
  splitlines_def is_linebreak_def linebreaks_def listed_subdirs_def listed_files_def
  entry_names_def split_def endswith_def rstrip_chars_def reported_subdirs_def Let_def
  exit_status_1_def header_of_def file_lines_def failure_line_def run_mpremote_def

lemma two_level_run:
  "list_all_files 2 two_level '':/'' =
     Some (Inr (),
           [Run [''mpremote'', ''fs'', ''ls'', '':/''],
            Print ([CHR 0x0A] @ '':/''),
            Print ''  main.py'',
            Run [''mpremote'', ''fs'', ''ls'', '':/lib''],
            Print ([CHR 0x0A] @ '':/lib/''),
            Print ''      util.py''])"
  by (simp add: numeral_2_eq_2 two_level_def listing_eval)

lemma two_level_depth: "depth_within 2 two_level '':/''"
  by (simp add: numeral_2_eq_2 two_level_def listing_eval)


section \<open>Claims about the list-files operation\<close>

text \<open>
  Claim C7, as amended. When the listing request for a path fails, the invocation routine
  prints its one-line diagnostic and raises \<^verbatim>\<open>SystemExit\<close>, which \<^verbatim>\<open>list_all_files\<close>
  catches: the call for that path returns normally, with no directory header and no entry
  line printed for it. When the path is a subdirectory in a loop over subdirectories, the
  loop goes on with the subdirectories that follow, and no call of the operation ever ends
  in an exception.
\<close>

theorem listing_failure_is_local:
  assumes "dev (ls_command base_path) = CalledProcessError e"
  shows "list_all_files (Suc n) dev base_path
           = Some (Inr (), [Run (ls_command base_path), failure_line e]) \<and>
         (base_path = here @ ''/'' @ subdir \<longrightarrow>
            list_subdirs (Suc n) dev here (subdir # rest)
              = map_option (\<lambda>(res, evs). (res, [Run (ls_command base_path), failure_line e] @ evs))
                  (list_subdirs (Suc n) dev here rest)) \<and>
         (\<forall>m b res evs. list_all_files m dev b = Some (res, evs) \<longrightarrow> res = Inr ())"
proof (intro conjI impI allI)
  show a: "list_all_files (Suc n) dev base_path
           = Some (Inr (), [Run (ls_command base_path), failure_line e])"
    using list_failed[of dev base_path e n] assms by simp
  show "list_subdirs (Suc n) dev here (subdir # rest)
              = map_option (\<lambda>(res, evs). (res, [Run (ls_command base_path), failure_line e] @ evs))
                  (list_subdirs (Suc n) dev here rest)"
    if "base_path = here @ ''/'' @ subdir"
    unfolding list_subdirs_Cons using a that by simp
  show "res = Inr ()" if "list_all_files m dev b = Some (res, evs)" for m b res evs
    using that by (rule list_result)
qed

theorem listing_failure_is_local_witness:
  "two_level (ls_command '':/tmp'') = exit_status_1 (ls_command '':/tmp'') \<and>
   list_subdirs 2 two_level '':'' [''tmp'', ''lib''] =
     Some (Inr (),
           [Run (ls_command '':/tmp''),
            Print (''Error: mpremote command failed: Command '' @ [CHR 0x27]
              @ ''['' @ [CHR 0x27] @ ''mpremote'' @ [CHR 0x27] @ '', '' @ [CHR 0x27] @ ''fs'' @ [CHR 0x27]
              @ '', '' @ [CHR 0x27] @ ''ls'' @ [CHR 0x27] @ '', '' @ [CHR 0x27] @ '':/tmp'' @ [CHR 0x27] @ '']''
              @ [CHR 0x27] @ '' returned non-zero exit status 1.''),
            Run (ls_command '':/lib''),
            Print ([CHR 0x0A] @ '':/lib/''),
            Print ''      util.py''])"
proof -
  have h: "two_level (ls_command '':/tmp'') = CalledProcessError
      (''Command '' @ [CHR 0x27] @ ''['' @ join '', '' (map (\<lambda>w. [CHR 0x27] @ w @ [CHR 0x27]) (ls_command '':/tmp''))
        @ '']'' @ [CHR 0x27] @ '' returned non-zero exit status 1.'')"
    by (simp add: two_level_def ls_command_def exit_status_1_def)
  have rest: "list_subdirs 2 two_level '':'' [''lib''] =
     Some (Inr (), [Run (ls_command '':/lib''), Print ([CHR 0x0A] @ '':/lib/''), Print ''      util.py''])"
    by (simp add: numeral_2_eq_2 two_level_def listing_eval)
  show ?thesis
    using listing_failure_is_local[of two_level "'':/tmp''" _ 1 "'':''" "''tmp''" "[''lib'']"] h rest
    by (simp add: two_level_def ls_command_def exit_status_1_def failure_line_def numeral_2_eq_2)
qed

text \<open>
  Claim C7 as stated says that nothing is printed for the failing path. On a device whose
  every command fails, the listing of the root prints the diagnostic line of
  \<^verbatim>\<open>run_mpremote\<close>.
\<close>

theorem listing_failure_counterexample:
  "map_option (\<lambda>r. prints (snd r)) (list_all_files 1 dev_down '':/'') =
     Some [''Error: mpremote command failed: Command '' @ [CHR 0x27]
           @ ''['' @ [CHR 0x27] @ ''mpremote'' @ [CHR 0x27] @ '', '' @ [CHR 0x27] @ ''fs'' @ [CHR 0x27]
           @ '', '' @ [CHR 0x27] @ ''ls'' @ [CHR 0x27] @ '', '' @ [CHR 0x27] @ '':/'' @ [CHR 0x27] @ '']''
           @ [CHR 0x27] @ '' returned non-zero exit status 1.'']"
  by (simp add: dev_down_def listing_eval prints_def)

text \<open>
  Claim C8, as amended. Let the listing request for a path succeed. When the stripped
  answer has fewer than two lines, nothing is printed and nothing is visited below the
  path. Otherwise the first line is discarded; the entry names are the last
  whitespace-delimited tokens of the remaining lines that have a token; names ending in
  the separator are subdirectories (taken without their trailing separators), the others
  are files; the operation prints a blank line and the path with one trailing separator,
  then each file indented by one space more than the length of the path without trailing
  separators, and then lists each subdirectory, in the order of the answer, one after the
  other. The names of the subdirectories are not printed under the header of their
  parent. On the two-level example the output is the header \<^verbatim>\<open>:/\<close>, the root file
  indented by two spaces, the header \<^verbatim>\<open>:/lib/\<close> and its file indented by six spaces.
\<close>

theorem listing_of_directory:
  assumes "dev (ls_command base_path) = Completed out"
  shows "list_all_files (Suc n) dev base_path =
           (if length (listing_lines dev base_path) < 2
            then Some (Inr (), [Run (ls_command base_path)])
            else map_option
                   (\<lambda>(res, evs). (res, [Run (ls_command base_path), header_of base_path]
                       @ file_lines base_path (listed_files (drop 1 (listing_lines dev base_path)))
                       @ evs))
                   (list_subdirs n dev (rstrip_chars ''/'' base_path)
                      (listed_subdirs (drop 1 (listing_lines dev base_path))))) \<and>
         list_subdirs n dev here [] = Some (Inr (), []) \<and>
         list_subdirs n dev here (s # ss) =
           (case list_all_files n dev (here @ ''/'' @ s) of
              None \<Rightarrow> None
            | Some (r, evs) \<Rightarrow>
                map_option (\<lambda>(r', evs'). (r', evs @ evs')) (list_subdirs n dev here ss))"
proof (intro conjI)
  show "list_all_files (Suc n) dev base_path =
           (if length (listing_lines dev base_path) < 2
            then Some (Inr (), [Run (ls_command base_path)])
            else map_option
                   (\<lambda>(res, evs). (res, [Run (ls_command base_path), header_of base_path]
                       @ file_lines base_path (listed_files (drop 1 (listing_lines dev base_path)))
                       @ evs))
                   (list_subdirs n dev (rstrip_chars ''/'' base_path)
                      (listed_subdirs (drop 1 (listing_lines dev base_path)))))"
  proof (cases "length (listing_lines dev base_path) < 2")
    case True
    with list_short[of dev base_path out n] assms show ?thesis by simp
  next
    case False
    then have "2 \<le> length (listing_lines dev base_path)" by simp
    with list_long[of dev base_path out n] assms False show ?thesis by simp
  qed
  show "list_subdirs n dev here [] = Some (Inr (), [])" by simp
  show "list_subdirs n dev here (s # ss) =
           (case list_all_files n dev (here @ ''/'' @ s) of
              None \<Rightarrow> None
            | Some (r, evs) \<Rightarrow>
                map_option (\<lambda>(r', evs'). (r', evs @ evs')) (list_subdirs n dev here ss))"
    by (rule list_subdirs_Cons)
qed

theorem listing_of_directory_witness:
  "two_level (ls_command '':/'') =
     Completed (''ls :/'' @ [CHR 0x0A] @ ''         139 main.py'' @ [CHR 0x0A]
                @ ''           0 lib/'' @ [CHR 0x0A]) \<and>
   listing_lines two_level '':/'' = [''ls :/'', ''         139 main.py'', ''           0 lib/''] \<and>
   listed_files (drop 1 (listing_lines two_level '':/'')) = [''main.py''] \<and>
   listed_subdirs (drop 1 (listing_lines two_level '':/'')) = [''lib''] \<and>
   list_all_files 2 two_level '':/'' =
     Some (Inr (),
           [Run (ls_command '':/''), Print ([CHR 0x0A] @ '':/''), Print ''  main.py'',
            Run (ls_command '':/lib''), Print ([CHR 0x0A] @ '':/lib/''), Print ''      util.py''])"
proof -
  have h: "two_level (ls_command '':/'') =
     Completed (''ls :/'' @ [CHR 0x0A] @ ''         139 main.py'' @ [CHR 0x0A]
                @ ''           0 lib/'' @ [CHR 0x0A])"
    by (simp add: two_level_def)
  have l: "listing_lines two_level '':/'' = [''ls :/'', ''         139 main.py'', ''           0 lib/'']"
    by (simp add: two_level_def listing_eval)
  have f: "listed_files [''         139 main.py'', ''           0 lib/''] = [''main.py'']"
    and d: "listed_subdirs [''         139 main.py'', ''           0 lib/''] = [''lib'']"
    by (simp_all add: listing_eval)
  have sub: "list_subdirs (Suc 0) two_level '':'' [''lib''] =
     Some (Inr (), [Run (ls_command '':/lib''), Print ([CHR 0x0A] @ '':/lib/''), Print ''      util.py''])"
    by (simp add: two_level_def listing_eval)
  have r: "rstrip_chars ''/'' '':/'' = '':''" by (simp add: rstrip_chars_def)
  have "list_all_files (Suc (Suc 0)) two_level '':/'' =
     Some (Inr (),
           [Run (ls_command '':/''), Print ([CHR 0x0A] @ '':/''), Print ''  main.py'',
            Run (ls_command '':/lib''), Print ([CHR 0x0A] @ '':/lib/''), Print ''      util.py''])"
    using listing_of_directory[of two_level "'':/''" _ "Suc 0" "'':''" "''lib''" "[]"] h
    by (simp add: l f d sub r header_of_def file_lines_def
             del: list_all_files.simps list_subdirs.simps)
  then show ?thesis using h l f d by (simp add: numeral_2_eq_2 del: list_all_files.simps)
qed

text \<open>
  Claim C8 as stated says that for every directory reached the path is printed, followed
  by its files. For an empty directory the answer is the header line alone, and the
  operation prints nothing at all.
\<close>

theorem listing_empty_directory_counterexample:
  "listing_lines empty_root '':/'' = [''ls :/''] \<and>
   map_option (\<lambda>r. prints (snd r)) (list_all_files 1 empty_root '':/'') = Some []"
  by (simp add: empty_root_def listing_eval prints_def)

text \<open>
  Claim C9. When the tree of subdirectories that the device reports below a path has
  bounded depth (fewer than \<open>n\<close> levels below the path, which excludes a directory that
  reports itself), the list-files operation returns normally, with one and the same
  trace for every bound on the nesting of calls from \<open>n\<close> on. Lemma
  \<open>self_listing_never_returns\<close> shows that the hypothesis is needed: on a device that
  reports a subdirectory named by the separator alone, the root lists itself and no bound
  suffices.
\<close>

theorem listing_terminates:
  assumes "depth_within n dev base_path"
  shows "\<exists>evs. \<forall>k. list_all_files (n + k) dev base_path = Some (Inr (), evs)"
proof -
  from listing_returns[OF assms] obtain evs where
    "list_all_files n dev base_path = Some (Inr (), evs)" by blast
  then have "\<forall>k. list_all_files (n + k) dev base_path = Some (Inr (), evs)"
    using list_mono by blast
  then show ?thesis by blast
qed

theorem listing_terminates_witness:
  "depth_within 2 two_level '':/'' \<and>
   (\<exists>evs. \<forall>k. list_all_files (2 + k) two_level '':/'' = Some (Inr (), evs))"
  using listing_terminates[OF two_level_depth] two_level_depth by simp

end
